theory Spec2Isabelle
  imports Complex_Main "HOL-Library.Word" "HOL-Library.Sublist"
begin

section \<open>JavaScript values\<close>

text \<open>
  A JavaScript \<^verbatim>\<open>number\<close> is an IEEE double. A finite double is modelled by the real
  number it denotes; the three special values are kept apart, since \<^verbatim>\<open>Math.max\<close>, \<^verbatim>\<open>-\<close>,
  \<^verbatim>\<open><\<close> and \<^verbatim>\<open><=\<close> treat them in their own way. The two zeros are one value: the
  program never tells them apart. Comparisons, \<^verbatim>\<open>Math.max\<close> and \<^verbatim>\<open>Math.trunc\<close> are exact
  on doubles, and so they are here.
\<close>

datatype jsnum = Fin real | PInf | NInf | NaN

text \<open>\<^verbatim>\<open>a < b\<close>: false as soon as one side is NaN.\<close>

fun js_lt :: "jsnum \<Rightarrow> jsnum \<Rightarrow> bool" where
  "js_lt NaN b = False"
| "js_lt a NaN = False"
| "js_lt (Fin a) (Fin b) = (a < b)"
| "js_lt (Fin a) PInf = True"
| "js_lt (Fin a) NInf = False"
| "js_lt PInf b = False"
| "js_lt NInf (Fin b) = True"
| "js_lt NInf PInf = True"
| "js_lt NInf NInf = False"

text \<open>\<^verbatim>\<open>a <= b\<close>: false as soon as one side is NaN.\<close>

fun js_le :: "jsnum \<Rightarrow> jsnum \<Rightarrow> bool" where
  "js_le NaN b = False"
| "js_le a NaN = False"
| "js_le (Fin a) (Fin b) = (a \<le> b)"
| "js_le (Fin a) PInf = True"
| "js_le (Fin a) NInf = False"
| "js_le PInf (Fin b) = False"
| "js_le PInf PInf = True"
| "js_le PInf NInf = False"
| "js_le NInf b = True"

text \<open>
  \<^verbatim>\<open>a - b\<close>: NaN propagates, and so does the difference of equal infinities. The
  difference of two finite numbers is the exact one. The program's subtraction rounds the
  exact difference to the nearest double, so the two agree where the exact difference is
  a double itself: when \<open>b\<close> is 0, and for integers \<open>a\<close> and \<open>b\<close> between \<open>-2^53\<close> and \<open>2^53\<close>
  whose difference lies in that range too (millisecond timestamps, character counts).
  Beyond that the program may round where this function does not (\<open>2^53 + 4 - 1\<close> is
  \<open>2^53 + 4\<close> in the program), and every property below that rests on a difference of
  two timestamps is stated for such integers only.
\<close>

fun js_sub :: "jsnum \<Rightarrow> jsnum \<Rightarrow> jsnum" where
  "js_sub NaN b = NaN"
| "js_sub a NaN = NaN"
| "js_sub (Fin a) (Fin b) = Fin (a - b)"
| "js_sub (Fin a) PInf = NInf"
| "js_sub (Fin a) NInf = PInf"
| "js_sub PInf (Fin b) = PInf"
| "js_sub PInf NInf = PInf"
| "js_sub PInf PInf = NaN"
| "js_sub NInf (Fin b) = NInf"
| "js_sub NInf PInf = NInf"
| "js_sub NInf NInf = NaN"

text \<open>\<^verbatim>\<open>Math.max(a, b)\<close>: NaN if either argument is NaN, else the larger one.\<close>

fun Math_max :: "jsnum \<Rightarrow> jsnum \<Rightarrow> jsnum" where
  "Math_max NaN b = NaN"
| "Math_max a NaN = NaN"
| "Math_max a b = (if js_lt a b then b else a)"

section \<open>The debounce gate (core/debounce.ts)\<close>

record DebounceGate =
  lastTriggeredAt :: jsnum
  debounceMs :: jsnum

text \<open>The constructor: \<^verbatim>\<open>lastTriggeredAt = 0\<close>, \<^verbatim>\<open>debounceMs = Math.max(0, debounceMs)\<close>.\<close>

definition newDebounceGate :: "jsnum \<Rightarrow> DebounceGate" where
  "newDebounceGate d = \<lparr>lastTriggeredAt = Fin 0, debounceMs = Math_max (Fin 0) d\<rparr>"

definition updateDebounceMs :: "DebounceGate \<Rightarrow> jsnum \<Rightarrow> DebounceGate" where
  "updateDebounceMs g d = g\<lparr>debounceMs := Math_max (Fin 0) d\<rparr>"

text \<open>\<^verbatim>\<open>canTrigger(now)\<close> returns its answer together with the gate as the call leaves it.\<close>

definition canTrigger :: "DebounceGate \<Rightarrow> jsnum \<Rightarrow> bool \<times> DebounceGate" where
  "canTrigger g now =
     (if js_le (debounceMs g) (Fin 0) then (True, g\<lparr>lastTriggeredAt := now\<rparr>)
      else if js_lt (js_sub now (lastTriggeredAt g)) (debounceMs g) then (False, g)
      else (True, g\<lparr>lastTriggeredAt := now\<rparr>))"

text \<open>A sequence of \<^verbatim>\<open>canTrigger\<close> calls on one gate: the answers in call order and the
  gate after the last call.\<close>

fun canTriggerAll :: "DebounceGate \<Rightarrow> jsnum list \<Rightarrow> bool list \<times> DebounceGate" where
  "canTriggerAll g [] = ([], g)"
| "canTriggerAll g (now # rest) =
     (case canTrigger g now of (r, g') \<Rightarrow>
        (case canTriggerAll g' rest of (rs, g'') \<Rightarrow> (r # rs, g'')))"

section \<open>Strings and the regular expression of the ANSI sequences\<close>

text \<open>A JavaScript string is a sequence of 16-bit code units. \<open>ascii\<close> writes one from
  ASCII text.\<close>

type_synonym unit16 = "16 word"
type_synonym jsstring = "unit16 list"

definition ascii :: "string \<Rightarrow> jsstring" where
  "ascii s = map of_char s"

text \<open>
  The regular expressions of the shape that \<^verbatim>\<open>ANSI_SEQUENCE_PATTERN\<close> has: an atom is a
  literal code unit, a character class \<^verbatim>\<open>[a-b...]\<close> given by its ranges, or a negated
  class \<^verbatim>\<open>[^a-b...]\<close>; an expression is one atom, a greedy \<^verbatim>\<open>atom*\<close>, a sequence or an
  alternative \<^verbatim>\<open>p|q\<close>.
\<close>

datatype atom = Lit unit16 | OneOf "(unit16 \<times> unit16) list" | NoneOf "(unit16 \<times> unit16) list"

fun inRanges :: "(unit16 \<times> unit16) list \<Rightarrow> unit16 \<Rightarrow> bool" where
  "inRanges [] c = False"
| "inRanges ((lo, hi) # rs) c = ((lo \<le> c \<and> c \<le> hi) \<or> inRanges rs c)"

fun atomOk :: "atom \<Rightarrow> unit16 \<Rightarrow> bool" where
  "atomOk (Lit u) c = (c = u)"
| "atomOk (OneOf rs) c = inRanges rs c"
| "atomOk (NoneOf rs) c = (\<not> inRanges rs c)"

datatype rx = One atom | Many atom | Cat rx rx | Alt rx rx

text \<open>
  The backtracking matcher of the runtime, as the list of its successes: \<open>rests p s\<close>
  lists what is left of \<open>s\<close> after each way of matching \<open>p\<close> at its start, in the order
  in which backtracking tries them (the left alternative first, the longest repetition
  first). The match that the engine reports at a position is the head of the list.
\<close>

fun rests :: "rx \<Rightarrow> jsstring \<Rightarrow> jsstring list" where
  "rests (One a) [] = []"
| "rests (One a) (c # cs) = (if atomOk a c then [cs] else [])"
| "rests (Many a) [] = [[]]"
| "rests (Many a) (c # cs) = (if atomOk a c then rests (Many a) cs @ [c # cs] else [c # cs])"
| "rests (Cat p q) s = concat (map (rests q) (rests p s))"
| "rests (Alt p q) s = rests p s @ rests q s"

text \<open>
  \<^verbatim>\<open>value.replace(pattern, "")\<close> for a pattern with the \<^verbatim>\<open>g\<close> flag: scanning from the
  left, a match is dropped and the scan goes on behind it; where there is none (or only
  an empty one) the code unit is kept and the scan moves one unit on.
\<close>

fun replaceGlobal :: "rx \<Rightarrow> jsstring \<Rightarrow> jsstring" where
  "replaceGlobal p [] = []"
| "replaceGlobal p (c # cs) =
     (case rests p (c # cs) of
        [] \<Rightarrow> c # replaceGlobal p cs
      | r # _ \<Rightarrow> if length r < length (c # cs) then replaceGlobal p r else c # replaceGlobal p cs)"

text \<open>
  \<^verbatim>\<open>/\x1B(?:[@-Z\\-_]|\[[0-?]*[ -/]*[@-~]|\][^\x07]*(?:\x07|\x1B\\))/g\<close>, with the code
  units of its literals: ESC is 1B, \<^verbatim>\<open>@-Z\<close> is 40-5A, \<^verbatim>\<open>\\-_\<close> is 5C-5F, \<^verbatim>\<open>[\<close> is 5B,
  \<^verbatim>\<open>0-?\<close> is 30-3F, space to \<^verbatim>\<open>/\<close> is 20-2F, \<^verbatim>\<open>@-~\<close> is 40-7E, \<^verbatim>\<open>]\<close> is 5D, BEL is 07
  and the backslash is 5C.
\<close>

definition ANSI_SEQUENCE_PATTERN :: rx where
  "ANSI_SEQUENCE_PATTERN =
     Cat (One (Lit 0x1B))
       (Alt (One (OneOf [(0x40, 0x5A), (0x5C, 0x5F)]))
       (Alt (Cat (One (Lit 0x5B))
              (Cat (Many (OneOf [(0x30, 0x3F)]))
              (Cat (Many (OneOf [(0x20, 0x2F)]))
                   (One (OneOf [(0x40, 0x7E)])))))
            (Cat (One (Lit 0x5D))
              (Cat (Many (NoneOf [(0x07, 0x07)]))
                   (Alt (One (Lit 0x07)) (Cat (One (Lit 0x1B)) (One (Lit 0x5C))))))))"

definition stripAnsiSequences :: "jsstring \<Rightarrow> jsstring" where
  "stripAnsiSequences v = replaceGlobal ANSI_SEQUENCE_PATTERN v"

section \<open>The rolling pattern matcher (core/patternMatcher.ts)\<close>

text \<open>
  A \<^verbatim>\<open>RegExp\<close> object: its \<^verbatim>\<open>global\<close> and \<^verbatim>\<open>sticky\<close> flags, its mutable \<^verbatim>\<open>lastIndex\<close>,
  and what the engine of the runtime answers for it: \<open>test_from p i text\<close> is the answer
  of a match attempt on \<open>text\<close> that starts at index \<open>i\<close>.
\<close>

record regexp =
  global :: bool
  sticky :: bool
  lastIndex :: nat
  test_from :: "nat \<Rightarrow> jsstring \<Rightarrow> bool"

text \<open>\<^verbatim>\<open>pattern.test(text)\<close> starts at \<^verbatim>\<open>lastIndex\<close> when a flag is set, at 0 otherwise.\<close>

definition RegExp_test :: "regexp \<Rightarrow> jsstring \<Rightarrow> bool" where
  "RegExp_test p text = test_from p (if global p \<or> sticky p then lastIndex p else 0) text"

definition testRegExp :: "regexp \<Rightarrow> jsstring \<Rightarrow> bool" where
  "testRegExp pattern text =
     RegExp_test (if global pattern \<or> sticky pattern then pattern\<lparr>lastIndex := 0\<rparr> else pattern) text"

text \<open>\<^verbatim>\<open>Math.trunc\<close> of a finite number.\<close>

definition Math_trunc :: "real \<Rightarrow> int" where
  "Math_trunc r = (if 0 \<le> r then \<lfloor>r\<rfloor> else \<lceil>r\<rceil>)"

text \<open>\<^verbatim>\<open>value.slice(start)\<close>: \<^verbatim>\<open>start\<close> is truncated to an integer (NaN counts as 0), a
  negative one counts from the end, and the result is clamped to the string.\<close>

fun slice :: "jsstring \<Rightarrow> jsnum \<Rightarrow> jsstring" where
  "slice v NaN = v"
| "slice v PInf = []"
| "slice v NInf = v"
| "slice v (Fin r) =
     (if Math_trunc r < 0 then drop (nat (max (int (length v) + Math_trunc r) 0)) v
      else drop (nat (min (Math_trunc r) (int (length v)))) v)"

definition trimToMax :: "jsstring \<Rightarrow> jsnum \<Rightarrow> jsstring" where
  "trimToMax v maxChars =
     (if js_le (Fin (real (length v))) maxChars then v
      else slice v (js_sub (Fin (real (length v))) maxChars))"

record 'k RollingPatternMatcher =
  buffers :: "'k \<rightharpoonup> jsstring"
  maxBufferChars :: jsnum

text \<open>The constructor; \<open>None\<close> is the omitted argument, which defaults to 4096.\<close>

definition newRollingPatternMatcher :: "jsnum option \<Rightarrow> 'k RollingPatternMatcher" where
  "newRollingPatternMatcher arg =
     \<lparr>buffers = Map.empty,
      maxBufferChars = Math_max (Fin 256) (case arg of None \<Rightarrow> Fin 4096 | Some n \<Rightarrow> n)\<rparr>"

definition clear :: "'k RollingPatternMatcher \<Rightarrow> 'k \<Rightarrow> 'k RollingPatternMatcher" where
  "clear m key = m\<lparr>buffers := (buffers m)(key := None)\<rparr>"

text \<open>The loop over the patterns, which returns at the first one that matches.\<close>

fun testPatterns :: "regexp list \<Rightarrow> jsstring \<Rightarrow> bool" where
  "testPatterns [] text = False"
| "testPatterns (pattern # rest) text =
     (if testRegExp pattern text then True else testPatterns rest text)"

definition matches ::
  "'k RollingPatternMatcher \<Rightarrow> 'k \<Rightarrow> jsstring \<Rightarrow> regexp list \<Rightarrow> bool \<times> 'k RollingPatternMatcher" where
  "matches m key chunk patterns =
     (let previous = (case buffers m key of None \<Rightarrow> [] | Some b \<Rightarrow> b);
          combined = trimToMax (previous @ stripAnsiSequences chunk) (maxBufferChars m)
      in (testPatterns patterns combined, m\<lparr>buffers := (buffers m)(key \<mapsto> combined)\<rparr>))"

text \<open>The calls a matcher receives, and a sequence of them run in order: the matcher
  it leaves, and the answers of the \<^verbatim>\<open>matches\<close> calls, each with its session key.\<close>

datatype 'k call = Matches 'k jsstring "regexp list" | Clear 'k

fun callKey :: "'k call \<Rightarrow> 'k" where
  "callKey (Matches key chunk patterns) = key"
| "callKey (Clear key) = key"

fun run :: "'k RollingPatternMatcher \<Rightarrow> 'k call list \<Rightarrow> 'k RollingPatternMatcher" where
  "run m [] = m"
| "run m (Matches key chunk patterns # cs) = run (snd (matches m key chunk patterns)) cs"
| "run m (Clear key # cs) = run (clear m key) cs"

fun results :: "'k RollingPatternMatcher \<Rightarrow> 'k call list \<Rightarrow> ('k \<times> bool) list" where
  "results m [] = []"
| "results m (Matches key chunk patterns # cs) =
     (key, fst (matches m key chunk patterns)) # results (snd (matches m key chunk patterns)) cs"
| "results m (Clear key # cs) = results (clear m key) cs"

text \<open>The buffer a session key has in a matcher: the empty string when it has none.\<close>

definition bufferOf :: "'k RollingPatternMatcher \<Rightarrow> 'k \<Rightarrow> jsstring" where
  "bufferOf m key = (case buffers m key of None \<Rightarrow> [] | Some b \<Rightarrow> b)"

text \<open>The accumulated stripped text of a session key: the stripped chunks that a call
  sequence sends to the key, in order, since the key's buffer was last discarded.\<close>

fun accumulated :: "'k \<Rightarrow> jsstring \<Rightarrow> 'k call list \<Rightarrow> jsstring" where
  "accumulated k acc [] = acc"
| "accumulated k acc (Matches key chunk patterns # cs) =
     accumulated k (if key = k then acc @ stripAnsiSequences chunk else acc) cs"
| "accumulated k acc (Clear key # cs) = accumulated k (if key = k then [] else acc) cs"

text \<open>A pattern for the examples: the RegExp of a literal text without flags, which
  matches when the literal occurs in the text at or after the start index.\<close>

fun startsWith :: "jsstring \<Rightarrow> jsstring \<Rightarrow> bool" where
  "startsWith text [] = True"
| "startsWith [] (l # ls) = False"
| "startsWith (c # cs) (l # ls) = (c = l \<and> startsWith cs ls)"

fun occursIn :: "jsstring \<Rightarrow> jsstring \<Rightarrow> bool" where
  "occursIn [] lit = startsWith [] lit"
| "occursIn (c # cs) lit = (startsWith (c # cs) lit \<or> occursIn cs lit)"

definition searchFrom :: "jsstring \<Rightarrow> nat \<Rightarrow> jsstring \<Rightarrow> bool" where
  "searchFrom lit i text = occursIn (drop i text) lit"

definition literalRegExp :: "jsstring \<Rightarrow> regexp" where
  "literalRegExp lit = \<lparr>global = False, sticky = False, lastIndex = 0, test_from = searchFrom lit\<rparr>"

section \<open>The configuration parser (core/configParser.ts)\<close>

text \<open>A value of type \<^verbatim>\<open>unknown\<close>, as far as the parser tells values apart, by
  \<^verbatim>\<open>typeof\<close> and \<^verbatim>\<open>Array.isArray\<close>: every value that is neither a string, a number nor an
  array (an object, a function, a symbol, a bigint) is treated like \<open>JObject\<close>.\<close>

datatype jsval =
  JUndefined | JNull | JBoolean bool | JNumber jsnum | JString jsstring
  | JArray "jsval list" | JObject


definition DEFAULT_IGNORE_EXIT_CODES :: "jsval list" where
  "DEFAULT_IGNORE_EXIT_CODES = [JNumber (Fin 130)]"



fun normalizeUnknownArray :: "jsval \<Rightarrow> jsval list \<Rightarrow> jsval list" where
  "normalizeUnknownArray (JArray vs) fallback = vs"
| "normalizeUnknownArray raw fallback = fallback"









text \<open>\<^verbatim>\<open>unique.add(normalized)\<close> on a \<^verbatim>\<open>Set\<close>, which keeps insertion order; the members
  are the integers that \<^verbatim>\<open>Math.trunc\<close> returns.\<close>

definition setAdd :: "int list \<Rightarrow> int \<Rightarrow> int list" where
  "setAdd unique x = (if x \<in> set unique then unique else unique @ [x])"

fun ignoreLoop :: "jsval list \<Rightarrow> int list \<Rightarrow> int list" where
  "ignoreLoop [] unique = unique"
| "ignoreLoop (JNumber (Fin r) # vs) unique =
     (if Math_trunc r = 0 then ignoreLoop vs unique
      else ignoreLoop vs (setAdd unique (Math_trunc r)))"
| "ignoreLoop (v # vs) unique = ignoreLoop vs unique"

definition normalizeIgnoreExitCodes :: "jsval \<Rightarrow> int list" where
  "normalizeIgnoreExitCodes raw =
     ignoreLoop (normalizeUnknownArray raw DEFAULT_IGNORE_EXIT_CODES) []"

section \<open>Properties of the debounce gate\<close>

lemma canTriggerAll_zero:
  "debounceMs g = Fin 0 \<Longrightarrow>
     fst (canTriggerAll g ts) = replicate (length ts) True \<and>
     snd (canTriggerAll g ts) = g\<lparr>lastTriggeredAt := last (lastTriggeredAt g # ts)\<rparr>"
proof (induction ts arbitrary: g)
  case Nil
  then show ?case by simp
next
  case (Cons now rest)
  let ?g' = "g\<lparr>lastTriggeredAt := now\<rparr>"
  have step: "canTrigger g now = (True, ?g')"
    using Cons.prems by (simp add: canTrigger_def)
  have "debounceMs ?g' = Fin 0"
    using Cons.prems by simp
  from Cons.IH [OF this] show ?case
    by (cases "canTriggerAll ?g' rest") (auto simp: step)
qed

text \<open>
  Claim C4. With a window of 0, \<^verbatim>\<open>canTrigger(now)\<close> answers true whatever the timestamp
  (NaN and the infinities included) and records \<^verbatim>\<open>now\<close> as the last trigger time; so does
  every call of a sequence. \<^verbatim>\<open>updateDebounceMs\<close> keeps the recorded time, so a later
  positive window \<open>w\<close> measures from that call: for integer millisecond times \<open>n\<close> and
  \<open>t\<close> between 0 and \<open>2^53\<close>, where the program's \<open>t - n\<close> is exact, the next call at \<open>t\<close>
  is allowed exactly when \<open>t - n\<close> has reached \<open>w\<close>.
\<close>

theorem canTrigger_window_zero:
  assumes "debounceMs g = Fin 0"
  shows "canTrigger g now = (True, g\<lparr>lastTriggeredAt := now\<rparr>)
       \<and> fst (canTriggerAll g ts) = replicate (length ts) True
       \<and> lastTriggeredAt (snd (canTriggerAll g (ts @ [now]))) = now
       \<and> lastTriggeredAt (updateDebounceMs (snd (canTrigger g now)) d) = now
       \<and> (0 < w \<and> 0 \<le> n \<and> n \<le> 2 ^ 53 \<and> 0 \<le> t \<and> t \<le> 2 ^ 53 \<longrightarrow>
            fst (canTrigger (updateDebounceMs (snd (canTrigger g (Fin (of_int n)))) (Fin w))
                   (Fin (of_int t)))
              = (w \<le> of_int (t - n)))"
proof -
  have one: "canTrigger g x = (True, g\<lparr>lastTriggeredAt := x\<rparr>)" for x
    using assms by (simp add: canTrigger_def)
  have seq: "lastTriggeredAt (snd (canTriggerAll g (ts @ [now]))) = now"
    using canTriggerAll_zero [OF assms, of "ts @ [now]"] by simp
  have kept: "lastTriggeredAt (updateDebounceMs (snd (canTrigger g now)) d) = now"
    by (simp add: one updateDebounceMs_def)
  have later: "0 < w \<and> 0 \<le> n \<and> n \<le> 2 ^ 53 \<and> 0 \<le> t \<and> t \<le> 2 ^ 53 \<longrightarrow>
      fst (canTrigger (updateDebounceMs (snd (canTrigger g (Fin (of_int n)))) (Fin w))
             (Fin (of_int t)))
        = (w \<le> of_int (t - n))"
    unfolding one by (auto simp: canTrigger_def updateDebounceMs_def)
  show ?thesis
    using canTriggerAll_zero [OF assms, of ts] one seq kept later by simp
qed

theorem canTrigger_window_zero_witness:
  "debounceMs (newDebounceGate (Fin 0)) = Fin 0
   \<and> canTrigger (newDebounceGate (Fin 0)) (Fin 1)
       = (True, (newDebounceGate (Fin 0))\<lparr>lastTriggeredAt := Fin 1\<rparr>)
   \<and> fst (canTriggerAll (newDebounceGate (Fin 0)) [Fin 1, Fin 1, Fin 2]) = [True, True, True]
   \<and> lastTriggeredAt (snd (canTriggerAll (newDebounceGate (Fin 0)) ([Fin 1, Fin 1, Fin 2] @ [Fin 1])))
       = Fin 1
   \<and> lastTriggeredAt (updateDebounceMs (snd (canTrigger (newDebounceGate (Fin 0)) (Fin 1))) (Fin 500))
       = Fin 1
   \<and> (0::real) < 500 \<and> (0::int) \<le> 1000 \<and> (1000::int) \<le> 2 ^ 53
   \<and> (0::int) \<le> 1200 \<and> (1200::int) \<le> 2 ^ 53
   \<and> fst (canTrigger (updateDebounceMs (snd (canTrigger (newDebounceGate (Fin 0)) (Fin (of_int 1000))))
            (Fin 500)) (Fin (of_int 1200))) = False"
proof -
  have h: "debounceMs (newDebounceGate (Fin 0)) = Fin 0"
    by (simp add: newDebounceGate_def)
  show ?thesis
    using h canTrigger_window_zero [OF h, of "Fin 1" "[Fin 1, Fin 1, Fin 2]" "Fin 500" 500 1000 1200]
    by (simp add: newDebounceGate_def canTrigger_def updateDebounceMs_def)
qed

text \<open>
  Claim C10. A new gate starts with \<^verbatim>\<open>lastTriggeredAt = 0\<close>, as if a trigger had been
  allowed at time 0: with a positive window \<open>w\<close>, its very first \<^verbatim>\<open>canTrigger(t)\<close> is
  refused (and leaves the gate as it is) when \<open>0 \<le> t < w\<close> and is allowed (and records
  \<open>t\<close>) when \<open>t \<ge> w\<close>.
\<close>

theorem fresh_gate_measures_from_zero:
  assumes "0 < w"
  shows "lastTriggeredAt (newDebounceGate (Fin w)) = Fin 0
       \<and> (0 \<le> t \<and> t < w \<longrightarrow>
            canTrigger (newDebounceGate (Fin w)) (Fin t) = (False, newDebounceGate (Fin w)))
       \<and> (w \<le> t \<longrightarrow>
            canTrigger (newDebounceGate (Fin w)) (Fin t)
              = (True, (newDebounceGate (Fin w))\<lparr>lastTriggeredAt := Fin t\<rparr>))"
  using assms by (auto simp: newDebounceGate_def canTrigger_def)

theorem fresh_gate_measures_from_zero_witness:
  "(0::real) < 500
   \<and> canTrigger (newDebounceGate (Fin 500)) (Fin 499) = (False, newDebounceGate (Fin 500))
   \<and> canTrigger (newDebounceGate (Fin 500)) (Fin 500)
       = (True, (newDebounceGate (Fin 500))\<lparr>lastTriggeredAt := Fin 500\<rparr>)"
proof -
  have h: "(0::real) < 500" by simp
  show ?thesis
    using h fresh_gate_measures_from_zero [OF h, of 499]
      fresh_gate_measures_from_zero [OF h, of 500]
    by simp
qed

text \<open>
  Claim C1, as stated, for three calls in a row at \<open>t0 < t1 < t2\<close>: "the call at \<open>t2\<close> is
  allowed whenever \<open>t2 - t0 \<ge> windowMs\<close>". It fails when the call at \<open>t1\<close> was itself
  allowed: the window is then measured from \<open>t1\<close>. With a window of 500, the calls at
  1000 and 1600 are allowed and the call at 1700 is refused, although 1700 - 1000 \<ge> 500.
  (Apart from that, times beyond \<open>2^53\<close> have differences that the program rounds, and
  a call can then be allowed although the exact difference is below the window.)
\<close>

theorem canTrigger_third_call_counterexample:
  "fst (canTrigger (newDebounceGate (Fin 500)) (Fin 1000)) = True
   \<and> (1000::real) < 1600 \<and> (1600::real) < 1700 \<and> (500::real) \<le> 1700 - 1000
   \<and> fst (canTrigger
            (snd (canTrigger (snd (canTrigger (newDebounceGate (Fin 500)) (Fin 1000))) (Fin 1600)))
            (Fin 1700)) = False"
  by (simp add: newDebounceGate_def canTrigger_def)

text \<open>
  Claim C1, amended. For a positive window \<open>w\<close>, a gate whose last trigger time is an
  integer between 0 and \<open>2^53\<close>, and calls at integer millisecond times
  \<open>0 \<le> t0 < t1 < t2 \<le> 2^53\<close> (where the program's \<^verbatim>\<open>now - lastTriggeredAt\<close> is exact): if
  \<^verbatim>\<open>canTrigger(t0)\<close> is allowed then \<^verbatim>\<open>canTrigger(t1)\<close> is refused whenever \<open>t1 - t0 < w\<close>,
  and that refused call leaves the gate as it was; and the following \<^verbatim>\<open>canTrigger(t2)\<close>
  is allowed whenever \<open>t2 - t0 \<ge> w\<close> and the call at \<open>t1\<close> was refused (\<open>t1 - t0 < w\<close>).
\<close>

theorem canTrigger_window_positive:
  assumes "0 < w" and "debounceMs g = Fin w"
    and "lastTriggeredAt g = Fin (of_int l)" and "0 \<le> l" and "l \<le> 2 ^ 53"
    and "0 \<le> t0" and "t0 < t1" and "t1 < t2" and "t2 \<le> 2 ^ 53"
    and "canTrigger g (Fin (of_int t0)) = (True, g0)"
  shows "(of_int (t1 - t0) < w \<longrightarrow> canTrigger g0 (Fin (of_int t1)) = (False, g0))
       \<and> (of_int (t1 - t0) < w \<and> w \<le> of_int (t2 - t0) \<longrightarrow>
            canTrigger (snd (canTrigger g0 (Fin (of_int t1)))) (Fin (of_int t2))
              = (True, g0\<lparr>lastTriggeredAt := Fin (of_int t2)\<rparr>))"
proof -
  have g0: "g0 = g\<lparr>lastTriggeredAt := Fin (of_int t0)\<rparr>"
    using assms(1,2,10) by (auto simp: canTrigger_def split: if_splits)
  show ?thesis
    using assms(1,2) by (auto simp: g0 canTrigger_def)
qed

theorem canTrigger_window_positive_witness:
  "(0::real) < 500 \<and> debounceMs (newDebounceGate (Fin 500)) = Fin 500
   \<and> lastTriggeredAt (newDebounceGate (Fin 500)) = Fin (of_int 0)
   \<and> (0::int) \<le> 0 \<and> (0::int) \<le> 2 ^ 53
   \<and> (0::int) \<le> 1000 \<and> (1000::int) < 1200 \<and> (1200::int) < 1601 \<and> (1601::int) \<le> 2 ^ 53
   \<and> canTrigger (newDebounceGate (Fin 500)) (Fin (of_int 1000))
       = (True, (newDebounceGate (Fin 500))\<lparr>lastTriggeredAt := Fin (of_int 1000)\<rparr>)
   \<and> canTrigger ((newDebounceGate (Fin 500))\<lparr>lastTriggeredAt := Fin (of_int 1000)\<rparr>)
         (Fin (of_int 1200))
       = (False, (newDebounceGate (Fin 500))\<lparr>lastTriggeredAt := Fin (of_int 1000)\<rparr>)
   \<and> fst (canTrigger
            (snd (canTrigger ((newDebounceGate (Fin 500))\<lparr>lastTriggeredAt := Fin (of_int 1000)\<rparr>)
                    (Fin (of_int 1200))))
            (Fin (of_int 1601))) = True"
proof -
  let ?g = "newDebounceGate (Fin 500)"
  have h1: "(0::real) < 500" and h4: "(0::int) \<le> 0" and h5: "(0::int) \<le> 2 ^ 53"
    and h6: "(0::int) \<le> 1000" and h7: "(1000::int) < 1200" and h8: "(1200::int) < 1601"
    and h9: "(1601::int) \<le> 2 ^ 53"
    by simp_all
  have h2: "debounceMs ?g = Fin 500" and h3: "lastTriggeredAt ?g = Fin (of_int 0)"
    by (simp_all add: newDebounceGate_def)
  have h10: "canTrigger ?g (Fin (of_int 1000)) = (True, ?g\<lparr>lastTriggeredAt := Fin (of_int 1000)\<rparr>)"
    by (simp add: newDebounceGate_def canTrigger_def)
  show ?thesis
    using h1 h2 h3 h10 canTrigger_window_positive [OF h1 h2 h3 h4 h5 h6 h7 h8 h9 h10]
    by (simp add: newDebounceGate_def canTrigger_def)
qed

text \<open>
  Claim C9, as stated: "a non-finite window is stored as zero". \<^verbatim>\<open>Math.max(0, Infinity)\<close>
  is \<^verbatim>\<open>Infinity\<close>: the gate stores an infinite window, by the constructor and by
  \<^verbatim>\<open>updateDebounceMs\<close> alike, and then refuses the call instead of allowing it.
\<close>

theorem nonfinite_window_counterexample:
  "debounceMs (newDebounceGate PInf) = PInf
   \<and> debounceMs (updateDebounceMs (newDebounceGate (Fin 1200)) PInf) = PInf
   \<and> fst (canTrigger (newDebounceGate PInf) (Fin 1000)) = False"
  by (simp add: newDebounceGate_def updateDebounceMs_def canTrigger_def)

text \<open>
  Claim C9, amended. For every negative window, finite or \<^verbatim>\<open>-Infinity\<close>, passed to the
  constructor or to \<^verbatim>\<open>updateDebounceMs\<close>, the stored window is zero, and the gate then
  allows every call, recording its timestamp.
\<close>

theorem negative_window_clamped:
  assumes "js_lt d (Fin 0)"
  shows "debounceMs (newDebounceGate d) = Fin 0
       \<and> debounceMs (updateDebounceMs g d) = Fin 0
       \<and> canTrigger (newDebounceGate d) now = (True, (newDebounceGate d)\<lparr>lastTriggeredAt := now\<rparr>)
       \<and> canTrigger (updateDebounceMs g d) now
           = (True, (updateDebounceMs g d)\<lparr>lastTriggeredAt := now\<rparr>)"
  using assms by (cases d) (simp_all add: newDebounceGate_def updateDebounceMs_def canTrigger_def)

theorem negative_window_clamped_witness:
  "js_lt (Fin (-5)) (Fin 0)
   \<and> debounceMs (newDebounceGate (Fin (-5))) = Fin 0
   \<and> debounceMs (updateDebounceMs (newDebounceGate (Fin 1200)) (Fin (-5))) = Fin 0
   \<and> fst (canTrigger (newDebounceGate (Fin (-5))) (Fin 1)) = True
   \<and> fst (canTrigger (updateDebounceMs (newDebounceGate (Fin 1200)) (Fin (-5))) (Fin 1)) = True"
proof -
  have h: "js_lt (Fin (-5)) (Fin 0)" by simp
  show ?thesis
    using h negative_window_clamped [OF h, of "newDebounceGate (Fin 1200)" "Fin 1"]
    by simp
qed

text \<open>A NaN window is stored as NaN; both comparisons of \<^verbatim>\<open>canTrigger\<close> are then false,
  so the gate allows every call all the same.\<close>

lemma nan_window_allows:
  "debounceMs (newDebounceGate NaN) = NaN
   \<and> canTrigger (newDebounceGate NaN) now = (True, (newDebounceGate NaN)\<lparr>lastTriggeredAt := now\<rparr>)"
  by (cases now) (simp_all add: newDebounceGate_def canTrigger_def)


section \<open>Properties of stripAnsiSequences\<close>

lemmas run_ansi = stripAnsiSequences_def ANSI_SEQUENCE_PATTERN_def ascii_def

lemma rests_ansi_no_esc: "c \<noteq> 0x1B \<Longrightarrow> rests ANSI_SEQUENCE_PATTERN (c # cs) = []"
  by (simp add: ANSI_SEQUENCE_PATTERN_def)

lemma replaceGlobal_ansi_plain:
  "0x1B \<notin> set a \<Longrightarrow>
     replaceGlobal ANSI_SEQUENCE_PATTERN (a @ s) = a @ replaceGlobal ANSI_SEQUENCE_PATTERN s"
  by (induction a) (auto simp: rests_ansi_no_esc)

lemma strip_plain_append:
  "0x1B \<notin> set a \<Longrightarrow> stripAnsiSequences (a @ s) = a @ stripAnsiSequences s"
  by (simp add: stripAnsiSequences_def replaceGlobal_ansi_plain)

lemma strip_plain: "0x1B \<notin> set s \<Longrightarrow> stripAnsiSequences s = s"
  using strip_plain_append [of s "[]"] by (simp add: stripAnsiSequences_def)

text \<open>A greedy repetition first tries the whole run of code units of its class.\<close>

lemma rests_Many_run:
  "\<forall>x\<in>set ps. atomOk a x \<Longrightarrow> \<not> atomOk a c \<Longrightarrow>
     \<exists>tl. rests (Many a) (ps @ c # b) = (c # b) # tl"
  by (induction ps) auto

lemma rests_csi_sgr:
  assumes "\<forall>x\<in>set ps. 0x30 \<le> x \<and> x \<le> 0x3F"
  shows "\<exists>tl. rests ANSI_SEQUENCE_PATTERN (0x1B # 0x5B # ps @ 0x6D # b) = b # tl"
proof -
  have "\<forall>x\<in>set ps. atomOk (OneOf [(0x30, 0x3F)]) x"
    using assms by simp
  moreover have "\<not> atomOk (OneOf [(0x30, 0x3F)]) (0x6D :: unit16)"
    by simp
  ultimately obtain tl where
    "rests (Many (OneOf [(0x30, 0x3F)])) (ps @ 0x6D # b) = (0x6D # b) # tl"
    using rests_Many_run by blast
  then show ?thesis
    by (simp add: ANSI_SEQUENCE_PATTERN_def)
qed

lemma strip_csi_sgr:
  assumes "\<forall>x\<in>set ps. 0x30 \<le> x \<and> x \<le> 0x3F"
  shows "stripAnsiSequences (0x1B # 0x5B # ps @ 0x6D # b) = stripAnsiSequences b"
proof -
  obtain tl where "rests ANSI_SEQUENCE_PATTERN (0x1B # 0x5B # ps @ 0x6D # b) = b # tl"
    using rests_csi_sgr [OF assms] by blast
  then show ?thesis
    by (simp add: stripAnsiSequences_def)
qed

text \<open>
  Claim C8, as stated: "stripping twice equals stripping once, for every string". An ESC
  that starts no sequence stays, and the removal of the sequence behind it can join it to
  the text that follows: in ESC ESC A A the first pass removes the second ESC with its A
  and leaves ESC A, which the second pass removes.
\<close>

theorem strip_twice_counterexample:
  "stripAnsiSequences [0x1B, 0x1B, 0x41, 0x41] = [0x1B, 0x41]
   \<and> stripAnsiSequences (stripAnsiSequences [0x1B, 0x1B, 0x41, 0x41]) = []
   \<and> stripAnsiSequences (stripAnsiSequences [0x1B, 0x1B, 0x41, 0x41])
       \<noteq> stripAnsiSequences [0x1B, 0x1B, 0x41, 0x41]"
  by (simp add: stripAnsiSequences_def ANSI_SEQUENCE_PATTERN_def)

text \<open>
  Claim C8, amended. \<^verbatim>\<open>stripAnsiSequences\<close> returns a string without ESC unchanged, so
  stripping twice equals stripping once whenever the first result has no ESC left (every
  ESC of the input started a complete sequence); and it removes a CSI colour code, that is
  ESC \<^verbatim>\<open>[\<close>, parameters in \<^verbatim>\<open>0-?\<close> (digits and \<^verbatim>\<open>;\<close> among them) and a final \<^verbatim>\<open>m\<close>, keeping
  the plain text before it exactly and going on with the text behind it, which is kept
  exactly when it is plain.
\<close>

theorem strip_idempotent_when_complete:
  "(0x1B \<notin> set s \<longrightarrow> stripAnsiSequences s = s)
   \<and> (0x1B \<notin> set (stripAnsiSequences s) \<longrightarrow>
        stripAnsiSequences (stripAnsiSequences s) = stripAnsiSequences s)
   \<and> (0x1B \<notin> set a \<and> (\<forall>x\<in>set ps. 0x30 \<le> x \<and> x \<le> 0x3F) \<longrightarrow>
        stripAnsiSequences (a @ 0x1B # 0x5B # ps @ 0x6D # b) = a @ stripAnsiSequences b)
   \<and> (0x1B \<notin> set a \<and> 0x1B \<notin> set b \<and> (\<forall>x\<in>set ps. 0x30 \<le> x \<and> x \<le> 0x3F) \<longrightarrow>
        stripAnsiSequences (a @ 0x1B # 0x5B # ps @ 0x6D # b) = a @ b)"
  by (simp add: strip_plain strip_plain_append strip_csi_sgr)

theorem strip_idempotent_when_complete_witness:
  "0x1B \<notin> set (ascii ''Error: command failed'')
   \<and> stripAnsiSequences (ascii ''Error: command failed'') = ascii ''Error: command failed''
   \<and> 0x1B \<notin> set (ascii ''Error:'') \<and> 0x1B \<notin> set (ascii '' command failed'')
   \<and> list_all (inRanges [(0x30, 0x3F)]) (ascii ''0'')
   \<and> stripAnsiSequences
         (ascii ''Error:'' @ 0x1B # 0x5B # ascii ''0'' @ 0x6D # ascii '' command failed'')
       = ascii ''Error:'' @ ascii '' command failed''
   \<and> 0x1B \<notin> set (stripAnsiSequences
         (ascii ''Error:'' @ 0x1B # 0x5B # ascii ''0'' @ 0x6D # ascii '' command failed''))
   \<and> stripAnsiSequences (stripAnsiSequences
         (ascii ''Error:'' @ 0x1B # 0x5B # ascii ''0'' @ 0x6D # ascii '' command failed''))
       = stripAnsiSequences
         (ascii ''Error:'' @ 0x1B # 0x5B # ascii ''0'' @ 0x6D # ascii '' command failed'')"
proof -
  let ?plain = "ascii ''Error: command failed''"
  let ?a = "ascii ''Error:''" and ?ps = "ascii ''0''" and ?b = "ascii '' command failed''"
  let ?s = "?a @ 0x1B # 0x5B # ?ps @ 0x6D # ?b"
  have h1: "0x1B \<notin> set ?plain" and h2: "0x1B \<notin> set ?a" and h3: "0x1B \<notin> set ?b"
    by (simp_all add: ascii_def)
  have h4: "list_all (inRanges [(0x30, 0x3F)]) ?ps"
    by (simp add: ascii_def)
  then have h4': "\<forall>x\<in>set ?ps. 0x30 \<le> x \<and> x \<le> 0x3F"
    by (simp add: list_all_iff)
  have c1: "stripAnsiSequences ?plain = ?plain"
    using strip_idempotent_when_complete [of ?plain] h1 by blast
  have c2: "stripAnsiSequences ?s = ?a @ ?b"
    using strip_idempotent_when_complete [of ?s ?a ?ps ?b] h2 h3 h4' by blast
  have h5: "0x1B \<notin> set (stripAnsiSequences ?s)"
    unfolding c2 using h2 h3 by simp
  have c3: "stripAnsiSequences (stripAnsiSequences ?s) = stripAnsiSequences ?s"
    using strip_idempotent_when_complete [of ?s ?a ?ps ?b] h5 by blast
  show ?thesis
    by (intro conjI h1 c1 h2 h3 h4 c2 h5 c3)
qed

text \<open>The colour-coded line of the unit test.\<close>

lemma strip_colour_codes_example:
  "stripAnsiSequences
     (0x1B # ascii ''[31mError:'' @ 0x1B # ascii ''[0m command failed'')
     = ascii ''Error: command failed''"
  by (simp add: run_ansi)

section \<open>Properties of the rolling pattern matcher\<close>

lemmas run_literal = testRegExp_def RegExp_test_def literalRegExp_def searchFrom_def

text \<open>After the reset in \<^verbatim>\<open>testRegExp\<close> the answer does not depend on \<^verbatim>\<open>lastIndex\<close>.\<close>

lemma testRegExp_from_zero: "testRegExp p text = test_from p 0 text"
  by (simp add: testRegExp_def RegExp_test_def)

lemma testPatterns_iff: "testPatterns ps text = (\<exists>p\<in>set ps. testRegExp p text)"
  by (induction ps) auto

lemma js_le_Fin_mono: "js_le (Fin b) cap \<Longrightarrow> a \<le> b \<Longrightarrow> js_le (Fin a) cap"
  by (cases cap) simp_all

lemma trimToMax_fits: "js_le (Fin (real (length v))) cap \<Longrightarrow> trimToMax v cap = v"
  by (simp add: trimToMax_def)

lemma slice_suffix: "suffix (slice v start) v"
  by (cases start) (simp_all add: suffix_drop)

lemma trimToMax_suffix: "suffix (trimToMax v cap) v"
  by (simp add: trimToMax_def slice_suffix)

lemma Math_trunc_of_nat: "Math_trunc (real n) = int n"
  by (simp add: Math_trunc_def)

text \<open>With a whole number of characters as the maximum, trimming keeps the last ones.\<close>

lemma trimToMax_nat: "trimToMax v (Fin (real c)) = drop (length v - c) v"
proof (cases "length v \<le> c")
  case True
  then show ?thesis by (simp add: trimToMax_def)
next
  case False
  define d where "d = length v - c"
  have len: "length v = c + d"
    using False by (simp add: d_def)
  have "trimToMax v (Fin (real c)) = slice v (Fin (real d))"
    using False by (simp add: trimToMax_def len)
  also have "\<dots> = drop d v"
    by (simp add: Math_trunc_of_nat len)
  finally show ?thesis
    by (simp add: d_def)
qed

lemma cap_of_int: "Math_max (Fin 256) (Fin (of_int n)) = Fin (real (nat (max 256 n)))"
  by (auto simp: max_def)

lemma drop_window_append:
  "drop (length (drop (length a - c) a @ s) - c) (drop (length a - c) a @ s)
     = drop (length (a @ s) - c) (a @ s)"
  by (cases "length a \<le> c") (auto simp: ac_simps)

lemma maxBufferChars_matches [simp]:
  "maxBufferChars (snd (matches m key chunk patterns)) = maxBufferChars m"
  by (simp add: matches_def Let_def)

lemma maxBufferChars_clear [simp]: "maxBufferChars (clear m key) = maxBufferChars m"
  by (simp add: clear_def)

lemma bufferOf_matches:
  "bufferOf (snd (matches m key chunk patterns)) k =
     (if key = k then trimToMax (bufferOf m k @ stripAnsiSequences chunk) (maxBufferChars m)
      else bufferOf m k)"
  by (simp add: matches_def bufferOf_def Let_def)

lemma bufferOf_clear: "bufferOf (clear m key) k = (if key = k then [] else bufferOf m k)"
  by (simp add: clear_def bufferOf_def)

lemma bufferOf_new: "bufferOf (newRollingPatternMatcher arg) k = []"
  by (simp add: newRollingPatternMatcher_def bufferOf_def)

text \<open>The invariant of a call sequence: the buffer of a key is the window of the last
  \<open>c\<close> characters of the key's accumulated text.\<close>

lemma run_window:
  "maxBufferChars m = Fin (real c) \<Longrightarrow> bufferOf m k = drop (length acc - c) acc \<Longrightarrow>
     bufferOf (run m cs) k = drop (length (accumulated k acc cs) - c) (accumulated k acc cs)"
proof (induction cs arbitrary: m acc)
  case Nil
  then show ?case by simp
next
  case (Cons x cs)
  show ?case
  proof (cases x)
    case (Matches key chunk patterns)
    let ?m' = "snd (matches m key chunk patterns)"
    let ?acc' = "if key = k then acc @ stripAnsiSequences chunk else acc"
    have "maxBufferChars ?m' = Fin (real c)"
      using Cons.prems(1) by simp
    moreover have "bufferOf ?m' k = drop (length ?acc' - c) ?acc'"
      using Cons.prems drop_window_append [of acc c "stripAnsiSequences chunk"]
      by (simp add: bufferOf_matches trimToMax_nat del: drop_append length_append)
    ultimately show ?thesis
      using Cons.IH [of ?m' ?acc'] Matches by simp
  next
    case (Clear key)
    let ?m' = "clear m key"
    let ?acc' = "if key = k then [] else acc"
    have "maxBufferChars ?m' = Fin (real c)"
      using Cons.prems(1) by simp
    moreover have "bufferOf ?m' k = drop (length ?acc' - c) ?acc'"
      using Cons.prems by (simp add: bufferOf_clear)
    ultimately show ?thesis
      using Cons.IH [of ?m' ?acc'] Clear by simp
  qed
qed

text \<open>Whatever the maximum is, the buffer is a suffix of the accumulated text.\<close>

lemma run_suffix:
  "suffix (bufferOf m k) acc \<Longrightarrow> suffix (bufferOf (run m cs) k) (accumulated k acc cs)"
proof (induction cs arbitrary: m acc)
  case Nil
  then show ?case by simp
next
  case (Cons x cs)
  show ?case
  proof (cases x)
    case (Matches key chunk patterns)
    have "suffix (trimToMax (bufferOf m k @ stripAnsiSequences chunk) (maxBufferChars m))
            (acc @ stripAnsiSequences chunk)"
    proof -
      have "suffix (bufferOf m k @ stripAnsiSequences chunk) (acc @ stripAnsiSequences chunk)"
        using Cons.prems by simp
      with trimToMax_suffix show ?thesis
        by (rule suffix_order.trans)
    qed
    then show ?thesis
      using Cons.IH [of "snd (matches m key chunk patterns)"
          "if key = k then acc @ stripAnsiSequences chunk else acc"] Cons.prems Matches
      by (simp add: bufferOf_matches)
  next
    case (Clear key)
    then show ?thesis
      using Cons.IH [of "clear m key" "if key = k then [] else acc"] Cons.prems
      by (simp add: bufferOf_clear)
  qed
qed

lemma strip_x400: "stripAnsiSequences (replicate 400 0x78) = replicate 400 0x78"
  by (simp add: strip_plain)

lemma trim_x400: "trimToMax (replicate 400 0x78) (Fin (601/2)) = replicate 301 0x78"
  by (simp add: trimToMax_def Math_trunc_def)

text \<open>
  Claim C3, as stated: "for every matcher the buffer length never exceeds
  \<^verbatim>\<open>Math.max(256, maxBufferChars)\<close>". The constructor takes any number. With 300.5 the
  effective maximum is 300.5, and of a chunk of 400 characters \<^verbatim>\<open>slice(400 - 300.5)\<close>,
  which truncates its start to 99, keeps 301.
\<close>

theorem buffer_fractional_maximum_counterexample:
  "maxBufferChars (newRollingPatternMatcher (Some (Fin (601/2))) :: nat RollingPatternMatcher)
     = Fin (601/2)
   \<and> length (bufferOf (run (newRollingPatternMatcher (Some (Fin (601/2))))
              [Matches (0::nat) (replicate 400 0x78) []]) 0) = 301
   \<and> js_lt (Fin (601/2))
        (Fin (real (length (bufferOf (run (newRollingPatternMatcher (Some (Fin (601/2))))
           [Matches (0::nat) (replicate 400 0x78) []]) 0))))"
  by (simp add: newRollingPatternMatcher_def matches_def bufferOf_def Let_def strip_x400 trim_x400)

text \<open>
  Claim C3, amended. For a matcher constructed with an integer \<open>n\<close> (or with no
  argument, which means 4096) the effective maximum is \<open>max 256 n\<close>, and after every
  sequence of \<^verbatim>\<open>matches\<close> and \<^verbatim>\<open>clear\<close> calls the buffer of every session key is no longer
  than that and consists of exactly the last characters, up to that many, of the
  stripped text accumulated for the key. For every constructor argument the buffer is a
  suffix of the accumulated stripped text.
\<close>

theorem buffer_is_bounded_window:
  "maxBufferChars (newRollingPatternMatcher (Some (Fin (of_int n))) :: 'k RollingPatternMatcher)
       = Fin (of_int (max 256 n))
   \<and> maxBufferChars (newRollingPatternMatcher None :: 'k RollingPatternMatcher) = Fin 4096
   \<and> length (bufferOf (run (newRollingPatternMatcher (Some (Fin (of_int n)))) cs) (k::'k))
       \<le> nat (max 256 n)
   \<and> length (bufferOf (run (newRollingPatternMatcher None) cs) k) \<le> 4096
   \<and> bufferOf (run (newRollingPatternMatcher (Some (Fin (of_int n)))) cs) k
       = drop (length (accumulated k [] cs) - nat (max 256 n)) (accumulated k [] cs)
   \<and> bufferOf (run (newRollingPatternMatcher None) cs) k
       = drop (length (accumulated k [] cs) - 4096) (accumulated k [] cs)
   \<and> suffix (bufferOf (run (newRollingPatternMatcher arg) cs) k) (accumulated k [] cs)"
proof -
  let ?c = "nat (max 256 n)"
  let ?m = "newRollingPatternMatcher (Some (Fin (of_int n))) :: 'k RollingPatternMatcher"
  let ?d = "newRollingPatternMatcher None :: 'k RollingPatternMatcher"
  have cap: "maxBufferChars ?m = Fin (real ?c)"
    by (simp add: newRollingPatternMatcher_def cap_of_int)
  have capd: "maxBufferChars ?d = Fin (real 4096)"
    by (simp add: newRollingPatternMatcher_def)
  have w: "bufferOf (run ?m cs) k = drop (length (accumulated k [] cs) - ?c) (accumulated k [] cs)"
    using run_window [OF cap, of k "[]" cs] by (simp add: bufferOf_new)
  have wd: "bufferOf (run ?d cs) k = drop (length (accumulated k [] cs) - 4096) (accumulated k [] cs)"
    using run_window [OF capd, of k "[]" cs] by (simp add: bufferOf_new)
  have s: "suffix (bufferOf (run (newRollingPatternMatcher arg) cs) k) (accumulated k [] cs)"
    using run_suffix [of "newRollingPatternMatcher arg" k "[]" cs] by (simp add: bufferOf_new)
  have f1: "maxBufferChars ?m = Fin (of_int (max 256 n))"
    using cap by simp
  have f2: "maxBufferChars ?d = Fin 4096"
    using capd by simp
  have f3: "length (bufferOf (run ?m cs) k) \<le> ?c"
    unfolding w by simp
  have f4: "length (bufferOf (run ?d cs) k) \<le> 4096"
    unfolding wd by simp
  show ?thesis
    by (intro conjI f1 f2 f3 f4 w wd s)
qed

theorem buffer_is_bounded_window_witness:
  "maxBufferChars (newRollingPatternMatcher (Some (Fin (of_int 0))) :: nat RollingPatternMatcher)
       = Fin (of_int (max 256 0))
   \<and> accumulated (0::nat) []
         [Matches 0 (replicate 200 0x78) [], Matches 1 (replicate 9 0x7A) [],
          Matches 0 (replicate 100 0x79) []]
       = replicate 200 0x78 @ replicate 100 0x79
   \<and> bufferOf (run (newRollingPatternMatcher (Some (Fin (of_int 0))))
         [Matches 0 (replicate 200 0x78) [], Matches 1 (replicate 9 0x7A) [],
          Matches 0 (replicate 100 0x79) []]) (0::nat)
       = replicate 156 0x78 @ replicate 100 0x79"
proof -
  let ?cs = "[Matches (0::nat) (replicate 200 0x78) [], Matches 1 (replicate 9 0x7A) [],
              Matches 0 (replicate 100 0x79) []]"
  let ?m = "newRollingPatternMatcher (Some (Fin (of_int 0))) :: nat RollingPatternMatcher"
  have acc: "accumulated (0::nat) [] ?cs = replicate 200 0x78 @ replicate 100 0x79"
    by (simp add: strip_plain)
  have cap: "maxBufferChars ?m = Fin (of_int (max 256 0))"
    using buffer_is_bounded_window [of 0 ?cs 0] by blast
  have "bufferOf (run ?m ?cs) 0
          = drop (length (accumulated 0 [] ?cs) - nat (max 256 0)) (accumulated 0 [] ?cs)"
    using buffer_is_bounded_window [of 0 ?cs 0] by blast
  then have buf: "bufferOf (run ?m ?cs) 0 = replicate 156 0x78 @ replicate 100 0x79"
    unfolding acc by simp
  show ?thesis
    by (intro conjI cap acc buf)
qed

lemma matches_fresh:
  "buffers m key = None \<Longrightarrow>
   js_le (Fin (real (length (stripAnsiSequences chunk)))) (maxBufferChars m) \<Longrightarrow>
     matches m key chunk patterns =
       (testPatterns patterns (stripAnsiSequences chunk),
        m\<lparr>buffers := (buffers m)(key \<mapsto> stripAnsiSequences chunk)\<rparr>)"
  by (simp add: matches_def trimToMax_fits Let_def)

text \<open>
  Claim C2, as stated: "if some pattern matches the stripped concatenation and neither
  stripped piece, the first call answers false". The first call tests every pattern of
  the set: with the patterns \<^verbatim>\<open>TypeError\<close> and \<^verbatim>\<open>Type\<close> and the chunks \<^verbatim>\<open>Type\<close> and
  \<^verbatim>\<open>Error\<close>, the first pattern matches the concatenation only, and the first call on a
  new matcher answers true, through the second pattern.
\<close>

theorem matches_other_pattern_counterexample:
  "testRegExp (literalRegExp (ascii ''TypeError''))
       (stripAnsiSequences (ascii ''Type'') @ stripAnsiSequences (ascii ''Error''))
   \<and> testRegExp (literalRegExp (ascii ''TypeError''))
       (stripAnsiSequences (ascii ''Type'' @ ascii ''Error''))
   \<and> testRegExp (literalRegExp (ascii ''TypeError'')) (stripAnsiSequences (ascii ''Type'')) = False
   \<and> testRegExp (literalRegExp (ascii ''TypeError'')) (stripAnsiSequences (ascii ''Error'')) = False
   \<and> fst (matches (newRollingPatternMatcher None) (0::nat) (ascii ''Type'')
            [literalRegExp (ascii ''TypeError''), literalRegExp (ascii ''Type'')]) = True"
  by (simp add: matches_def newRollingPatternMatcher_def trimToMax_def Let_def run_literal run_ansi)

text \<open>
  Claim C2, amended. For a session key without a buffer (never seen, or cleared), every
  pattern set and chunks \<open>c1\<close>, \<open>c2\<close> whose stripped texts together fit into the buffer
  maximum: if no pattern of the set matches the stripped \<open>c1\<close> and some pattern matches
  the stripped \<open>c1\<close> followed by the stripped \<open>c2\<close>, then \<^verbatim>\<open>matches(key, c1, patterns)\<close>
  answers false and the \<^verbatim>\<open>matches(key, c2, patterns)\<close> that follows answers true.
\<close>

theorem matches_across_chunks:
  assumes fresh: "buffers m key = None"
    and fits: "js_le (Fin (real (length (stripAnsiSequences c1) + length (stripAnsiSequences c2))))
                 (maxBufferChars m)"
    and none: "\<forall>p\<in>set patterns. \<not> testRegExp p (stripAnsiSequences c1)"
    and some: "\<exists>p\<in>set patterns. testRegExp p (stripAnsiSequences c1 @ stripAnsiSequences c2)"
  shows "fst (matches m key c1 patterns) = False
       \<and> fst (matches (snd (matches m key c1 patterns)) key c2 patterns) = True"
proof -
  have fits1: "js_le (Fin (real (length (stripAnsiSequences c1)))) (maxBufferChars m)"
    using fits by (rule js_le_Fin_mono) simp
  have first: "matches m key c1 patterns =
      (testPatterns patterns (stripAnsiSequences c1),
       m\<lparr>buffers := (buffers m)(key \<mapsto> stripAnsiSequences c1)\<rparr>)"
    using fresh fits1 by (rule matches_fresh)
  have whole: "trimToMax (stripAnsiSequences c1 @ stripAnsiSequences c2) (maxBufferChars m)
          = stripAnsiSequences c1 @ stripAnsiSequences c2"
    using fits by (simp add: trimToMax_fits)
  have second: "fst (matches (snd (matches m key c1 patterns)) key c2 patterns)
      = testPatterns patterns (stripAnsiSequences c1 @ stripAnsiSequences c2)"
    using whole unfolding first by (simp add: matches_def Let_def)
  have "fst (matches m key c1 patterns) = False"
    using none by (simp add: first testPatterns_iff)
  moreover have "fst (matches (snd (matches m key c1 patterns)) key c2 patterns) = True"
    using some by (simp add: second testPatterns_iff)
  ultimately show ?thesis
    by (rule conjI)
qed

theorem matches_across_chunks_witness:
  "buffers (newRollingPatternMatcher None :: nat RollingPatternMatcher) 0 = None
   \<and> js_le (Fin (real (length (stripAnsiSequences (ascii ''Type''))
                      + length (stripAnsiSequences (ascii ''Error: x is not a function'')))))
        (maxBufferChars (newRollingPatternMatcher None :: nat RollingPatternMatcher))
   \<and> testRegExp (literalRegExp (ascii ''TypeError'')) (stripAnsiSequences (ascii ''Type'')) = False
   \<and> testRegExp (literalRegExp (ascii ''TypeError''))
        (stripAnsiSequences (ascii ''Type'') @ stripAnsiSequences (ascii ''Error: x is not a function''))
   \<and> fst (matches (newRollingPatternMatcher None) (0::nat) (ascii ''Type'')
            [literalRegExp (ascii ''TypeError'')]) = False
   \<and> fst (matches (snd (matches (newRollingPatternMatcher None) (0::nat) (ascii ''Type'')
                         [literalRegExp (ascii ''TypeError'')]))
            0 (ascii ''Error: x is not a function'') [literalRegExp (ascii ''TypeError'')]) = True"
proof -
  let ?m = "newRollingPatternMatcher None :: nat RollingPatternMatcher"
  let ?c1 = "ascii ''Type''" and ?c2 = "ascii ''Error: x is not a function''"
  let ?ps = "[literalRegExp (ascii ''TypeError'')]"
  have h1: "buffers ?m 0 = None"
    by (simp add: newRollingPatternMatcher_def)
  have h2: "js_le (Fin (real (length (stripAnsiSequences ?c1) + length (stripAnsiSequences ?c2))))
              (maxBufferChars ?m)"
    by (simp add: newRollingPatternMatcher_def run_ansi)
  have h3: "\<forall>p\<in>set ?ps. \<not> testRegExp p (stripAnsiSequences ?c1)"
    by (simp add: run_literal run_ansi)
  have t4: "testRegExp (literalRegExp (ascii ''TypeError''))
              (stripAnsiSequences ?c1 @ stripAnsiSequences ?c2)"
    by (simp add: run_literal run_ansi)
  then have h4: "\<exists>p\<in>set ?ps. testRegExp p (stripAnsiSequences ?c1 @ stripAnsiSequences ?c2)"
    by simp
  show ?thesis
    using h1 h2 h3 t4 matches_across_chunks [OF h1 h2 h3 h4] by simp
qed

lemma occursIn_absent: "l \<notin> set t \<Longrightarrow> \<not> occursIn t (l # ls)"
  by (induction t) auto

text \<open>
  The other two conditions of the amended claim C2 are needed as well. Text that the
  key's buffer already holds takes part in the match: after \<^verbatim>\<open>Type\<close>, the chunk \<^verbatim>\<open>Error\<close>
  answers true although no pattern matches it alone. And text beyond the maximum is cut
  off before the patterns are tested: with a maximum of 256, \<^verbatim>\<open>Type\<close> followed by \<^verbatim>\<open>Error\<close>
  and 256 more characters leaves none of \<^verbatim>\<open>TypeError\<close> in the buffer.
\<close>

lemma matches_stale_buffer_example:
  "testRegExp (literalRegExp (ascii ''Errors''))
      (stripAnsiSequences (ascii ''Error'') @ stripAnsiSequences (ascii ''s''))
   \<and> testPatterns [literalRegExp (ascii ''TypeError''), literalRegExp (ascii ''Errors'')]
        (stripAnsiSequences (ascii ''Error'')) = False
   \<and> testPatterns [literalRegExp (ascii ''TypeError''), literalRegExp (ascii ''Errors'')]
        (stripAnsiSequences (ascii ''s'')) = False
   \<and> results (newRollingPatternMatcher None)
        [Matches (0::nat) (ascii ''Type'')
           [literalRegExp (ascii ''TypeError''), literalRegExp (ascii ''Errors'')],
         Matches 0 (ascii ''Error'')
           [literalRegExp (ascii ''TypeError''), literalRegExp (ascii ''Errors'')]]
       = [(0, False), (0, True)]"
  by (simp add: matches_def newRollingPatternMatcher_def trimToMax_def Let_def run_literal run_ansi)

lemma matches_overflow_example:
  "testRegExp (literalRegExp (ascii ''TypeError''))
      (stripAnsiSequences (ascii ''Type'') @ stripAnsiSequences (ascii ''Error'' @ replicate 256 0x78))
   \<and> testRegExp (literalRegExp (ascii ''TypeError'')) (stripAnsiSequences (ascii ''Type'')) = False
   \<and> testRegExp (literalRegExp (ascii ''TypeError''))
        (stripAnsiSequences (ascii ''Error'' @ replicate 256 0x78)) = False
   \<and> results (newRollingPatternMatcher (Some (Fin 256)))
        [Matches (0::nat) (ascii ''Type'') [literalRegExp (ascii ''TypeError'')],
         Matches 0 (ascii ''Error'' @ replicate 256 0x78) [literalRegExp (ascii ''TypeError'')]]
       = [(0, False), (0, False)]"
proof -
  let ?p = "literalRegExp (ascii ''TypeError'')"
  let ?c2 = "ascii ''Error'' @ replicate 256 0x78"
  have s1: "stripAnsiSequences (ascii ''Type'') = ascii ''Type''"
    and s2: "stripAnsiSequences ?c2 = ?c2"
    by (simp_all add: strip_plain ascii_def)
  have t1: "testRegExp ?p (ascii ''Type'' @ ?c2)"
    by (simp add: run_literal ascii_def)
  have t2: "testRegExp ?p (ascii ''Type'') = False"
    by (simp add: run_literal ascii_def)
  have t3: "testRegExp ?p ?c2 = False"
    by (simp add: run_literal ascii_def occursIn_absent)
  have cut: "trimToMax (ascii ''Type'' @ ?c2) (Fin 256) = replicate 256 0x78"
    by (simp add: trimToMax_def Math_trunc_def ascii_def)
  have keep: "trimToMax (ascii ''Type'') (Fin 256) = ascii ''Type''"
    by (simp add: trimToMax_def ascii_def)
  have t4: "testRegExp ?p (replicate 256 0x78) = False"
    by (simp add: run_literal ascii_def occursIn_absent)
  have r: "results (newRollingPatternMatcher (Some (Fin 256)))
        [Matches (0::nat) (ascii ''Type'') [?p], Matches 0 ?c2 [?p]] = [(0, False), (0, False)]"
    by (simp add: matches_def newRollingPatternMatcher_def Let_def s1 s2 keep cut t2 t4)
  show ?thesis
    unfolding s1 s2 by (intro conjI t1 t2 t3 r)
qed

section \<open>Sessions do not observe each other\<close>

lemma matches_result_local:
  "buffers m k = buffers m' k \<Longrightarrow> maxBufferChars m = maxBufferChars m' \<Longrightarrow>
     fst (matches m k chunk ps) = fst (matches m' k chunk ps)
     \<and> buffers (snd (matches m k chunk ps)) k = buffers (snd (matches m' k chunk ps)) k"
  by (simp add: matches_def Let_def)

lemma matches_other_key: "key \<noteq> k \<Longrightarrow> buffers (snd (matches m key chunk ps)) k = buffers m k"
  by (simp add: matches_def Let_def)

lemma clear_other_key: "key \<noteq> k \<Longrightarrow> buffers (clear m key) k = buffers m k"
  by (simp add: clear_def)

lemma clear_same_key: "buffers (clear m k) k = None"
  by (simp add: clear_def)

text \<open>Two matchers that agree on the buffer of \<open>k\<close> and on the maximum give \<open>k\<close> the same
  answers, whatever calls for other keys one of them receives in between.\<close>

lemma results_isolated:
  "buffers m k = buffers m' k \<Longrightarrow> maxBufferChars m = maxBufferChars m' \<Longrightarrow>
     filter (\<lambda>r. fst r = k) (results m cs) = results m' (filter (\<lambda>c. callKey c = k) cs)"
proof (induction cs arbitrary: m m')
  case Nil
  then show ?case by simp
next
  case (Cons x cs)
  show ?case
  proof (cases x)
    case (Matches key chunk ps)
    show ?thesis
    proof (cases "key = k")
      case True
      let ?n = "snd (matches m k chunk ps)" and ?n' = "snd (matches m' k chunk ps)"
      have loc: "fst (matches m k chunk ps) = fst (matches m' k chunk ps)"
        "buffers ?n k = buffers ?n' k"
        using matches_result_local [OF Cons.prems] by simp_all
      have "maxBufferChars ?n = maxBufferChars ?n'"
        using Cons.prems(2) by simp
      from Cons.IH [OF loc(2) this] show ?thesis
        using Matches True loc(1) by simp
    next
      case False
      let ?n = "snd (matches m key chunk ps)"
      have "buffers ?n k = buffers m' k"
        using False Cons.prems(1) by (simp add: matches_other_key)
      moreover have "maxBufferChars ?n = maxBufferChars m'"
        using Cons.prems(2) by simp
      ultimately show ?thesis
        using Cons.IH [of ?n m'] Matches False by simp
    qed
  next
    case (Clear key)
    show ?thesis
    proof (cases "key = k")
      case True
      have "buffers (clear m k) k = buffers (clear m' k) k"
        by (simp add: clear_same_key)
      moreover have "maxBufferChars (clear m k) = maxBufferChars (clear m' k)"
        using Cons.prems(2) by simp
      ultimately show ?thesis
        using Cons.IH [of "clear m k" "clear m' k"] Clear True by simp
    next
      case False
      have "buffers (clear m key) k = buffers m' k"
        using False Cons.prems(1) by (simp add: clear_other_key)
      moreover have "maxBufferChars (clear m key) = maxBufferChars m'"
        using Cons.prems(2) by simp
      ultimately show ?thesis
        using Cons.IH [of "clear m key" m'] Clear False by simp
    qed
  qed
qed

text \<open>
  Claim C5. In any interleaving of calls for different session keys, the answers that a
  key \<open>k\<close> gets, in order, are the answers it gets when only its own calls are made, in
  the same order, on the same matcher: no call for another key changes them.
\<close>

theorem sessions_isolated:
  "filter (\<lambda>r. fst r = k) (results m cs) = results m (filter (\<lambda>c. callKey c = k) cs)"
  by (rule results_isolated) simp_all

theorem sessions_isolated_witness:
  "results (newRollingPatternMatcher None)
     [Matches (1::nat) (ascii ''fa'') [literalRegExp (ascii ''fatal'')],
      Matches 2 (ascii ''all good'') [literalRegExp (ascii ''fatal'')],
      Matches 1 (ascii ''tal'') [literalRegExp (ascii ''fatal'')],
      Matches 2 (ascii ''still good'') [literalRegExp (ascii ''fatal'')]]
     = [(1, False), (2, False), (1, True), (2, False)]
   \<and> results (newRollingPatternMatcher None)
       [Matches (1::nat) (ascii ''fa'') [literalRegExp (ascii ''fatal'')],
        Matches 1 (ascii ''tal'') [literalRegExp (ascii ''fatal'')]]
     = [(1, False), (1, True)]
   \<and> results (newRollingPatternMatcher None)
       [Matches (2::nat) (ascii ''all good'') [literalRegExp (ascii ''fatal'')],
        Matches 2 (ascii ''still good'') [literalRegExp (ascii ''fatal'')]]
     = [(2, False), (2, False)]"
proof -
  let ?p = "[literalRegExp (ascii ''fatal'')]"
  let ?cs = "[Matches (1::nat) (ascii ''fa'') ?p, Matches 2 (ascii ''all good'') ?p,
              Matches 1 (ascii ''tal'') ?p, Matches 2 (ascii ''still good'') ?p]"
  let ?m = "newRollingPatternMatcher None :: nat RollingPatternMatcher"
  have all: "results ?m ?cs = [(1, False), (2, False), (1, True), (2, False)]"
    by (simp add: matches_def newRollingPatternMatcher_def trimToMax_def Let_def
        run_literal run_ansi)
  show ?thesis
    using all sessions_isolated [of 1 ?m ?cs] sessions_isolated [of 2 ?m ?cs]
    by simp
qed

section \<open>Properties of the configuration parser\<close>








lemma ignoreLoop_set:
  "set (ignoreLoop vs unique) =
     set unique \<union> {Math_trunc r | r. JNumber (Fin r) \<in> set vs \<and> Math_trunc r \<noteq> 0}"
  by (induction vs unique rule: ignoreLoop.induct) (auto simp: setAdd_def)

lemma ignoreLoop_distinct: "distinct unique \<Longrightarrow> distinct (ignoreLoop vs unique)"
  by (induction vs unique rule: ignoreLoop.induct) (auto simp: setAdd_def)

text \<open>\<^verbatim>\<open>Math.trunc\<close> rounds toward zero.\<close>

lemma Math_trunc_toward_zero:
  "\<bar>real_of_int (Math_trunc r)\<bar> \<le> \<bar>r\<bar> \<and> \<bar>r - real_of_int (Math_trunc r)\<bar> < 1"
  by (auto simp: Math_trunc_def) linarith+

text \<open>
  Claim C7. The result of \<^verbatim>\<open>normalizeIgnoreExitCodes\<close> holds exactly the values
  \<^verbatim>\<open>Math.trunc(v)\<close>, rounded toward zero, of the entries \<open>v\<close> that are finite numbers and
  whose truncation is not zero, each once; so it never contains 0. For
  \<^verbatim>\<open>[130, 2.8, 130, 0, "9"]\<close> it is the array \<^verbatim>\<open>[130, 2]\<close>, that is the set {2, 130}: the
  string \<^verbatim>\<open>"9"\<close> is dropped.
\<close>

theorem normalizeIgnoreExitCodes_spec:
  "set (normalizeIgnoreExitCodes raw)
       = {Math_trunc r | r. JNumber (Fin r) \<in> set (normalizeUnknownArray raw DEFAULT_IGNORE_EXIT_CODES)
                           \<and> Math_trunc r \<noteq> 0}
   \<and> distinct (normalizeIgnoreExitCodes raw)
   \<and> 0 \<notin> set (normalizeIgnoreExitCodes raw)
   \<and> \<bar>real_of_int (Math_trunc x)\<bar> \<le> \<bar>x\<bar> \<and> \<bar>x - real_of_int (Math_trunc x)\<bar> < 1
   \<and> normalizeIgnoreExitCodes
        (JArray [JNumber (Fin 130), JNumber (Fin 2.8), JNumber (Fin 130), JNumber (Fin 0),
                 JString (ascii ''9'')]) = [130, 2]
   \<and> set (normalizeIgnoreExitCodes
        (JArray [JNumber (Fin 130), JNumber (Fin 2.8), JNumber (Fin 130), JNumber (Fin 0),
                 JString (ascii ''9'')])) = {2, 130}"
proof -
  have s: "set (normalizeIgnoreExitCodes raw)
       = {Math_trunc r | r. JNumber (Fin r) \<in> set (normalizeUnknownArray raw DEFAULT_IGNORE_EXIT_CODES)
                           \<and> Math_trunc r \<noteq> 0}"
    by (simp add: normalizeIgnoreExitCodes_def ignoreLoop_set)
  have d: "distinct (normalizeIgnoreExitCodes raw)"
    by (simp add: normalizeIgnoreExitCodes_def ignoreLoop_distinct)
  have z: "0 \<notin> set (normalizeIgnoreExitCodes raw)"
    unfolding s by auto
  have e: "normalizeIgnoreExitCodes
        (JArray [JNumber (Fin 130), JNumber (Fin 2.8), JNumber (Fin 130), JNumber (Fin 0),
                 JString (ascii ''9'')]) = [130, 2]"
    by (simp add: normalizeIgnoreExitCodes_def setAdd_def Math_trunc_def)
  have es: "set (normalizeIgnoreExitCodes
        (JArray [JNumber (Fin 130), JNumber (Fin 2.8), JNumber (Fin 130), JNumber (Fin 0),
                 JString (ascii ''9'')])) = {2, 130}"
    unfolding e by auto
  show ?thesis
    using Math_trunc_toward_zero [of x] by (intro conjI s d z e es) simp_all
qed

end
